theory Spec2Isabelle
  imports Complex_Main
begin

section \<open>JavaScript values used by the routes\<close>

text \<open>
  The routes read three kinds of JavaScript values: a request header (a string or
  \<open>undefined\<close>), the properties of the parsed JSON body (strings, as the Swagger
  definitions NewUser, LoginForm and ModifyUser declare them, or \<open>undefined\<close> when the
  property is absent) and the array of the body's keys. A string is a list of 8-bit
  characters. \<open>undefined\<close> is \<open>None\<close>.
\<close>

text \<open>\<open>!x\<close> is false exactly for a non-empty string: \<open>undefined\<close> and \<open>""\<close> are falsy.\<close>

definition truthy :: "string option \<Rightarrow> bool" where
  "truthy x = (case x of None \<Rightarrow> False | Some s \<Rightarrow> s \<noteq> [])"



subsection \<open>The comparison of an array with the number 1\<close>

text \<open>
  \<open>Object.keys(req.body) < 1\<close> compares an array with a number. The array is first turned
  into a primitive, which is its \<open>toString\<close>, the keys joined by commas; the string is then
  turned into a number (StringToNumber of ECMAScript) and the numbers are compared, a
  comparison with NaN being false.
\<close>

datatype jsnum = NaN | PosInfinity | NegInfinity | Finite rat

definition isWhiteSpace :: "char \<Rightarrow> bool" where
  "isWhiteSpace c = ((of_char c :: nat) \<in> {9, 10, 11, 12, 13, 32, 160})"

definition trim :: "string \<Rightarrow> string" where
  "trim s = rev (dropWhile isWhiteSpace (rev (dropWhile isWhiteSpace s)))"

definition isDigit :: "char \<Rightarrow> bool" where
  "isDigit c = (48 \<le> (of_char c :: nat) \<and> (of_char c :: nat) \<le> 57)"

text \<open>The value of a digit in a base up to 16; \<open>None\<close> when the character is no digit of the base.\<close>

definition digitIn :: "nat \<Rightarrow> char \<Rightarrow> nat option" where
  "digitIn base c =
     (let n = (of_char c :: nat);
          v = (if 48 \<le> n \<and> n \<le> 57 then Some (n - 48)
               else if 97 \<le> n \<and> n \<le> 102 then Some (n - 87)
               else if 65 \<le> n \<and> n \<le> 70 then Some (n - 55)
               else None)
      in case v of None \<Rightarrow> None | Some d \<Rightarrow> if d < base then Some d else None)"

definition digitsVal :: "nat \<Rightarrow> string \<Rightarrow> nat" where
  "digitsVal base ds = foldl (\<lambda>a c. base * a + (case digitIn base c of None \<Rightarrow> 0 | Some d \<Rightarrow> d)) 0 ds"

definition allDigitsIn :: "nat \<Rightarrow> string \<Rightarrow> bool" where
  "allDigitsIn base ds = (ds \<noteq> [] \<and> list_all (\<lambda>c. digitIn base c \<noteq> None) ds)"

text \<open>ExponentPart, optional: \<open>e\<close> or \<open>E\<close>, an optional sign, at least one digit.\<close>

definition ExponentPart :: "string \<Rightarrow> int option" where
  "ExponentPart s =
     (case s of
        [] \<Rightarrow> Some 0
      | c # r \<Rightarrow>
          if c = CHR ''e'' \<or> c = CHR ''E'' then
            (case r of
               [] \<Rightarrow> None
             | d # r' \<Rightarrow>
                 if d = CHR ''-'' then
                   (if allDigitsIn 10 r' then Some (- int (digitsVal 10 r')) else None)
                 else if d = CHR ''+'' then
                   (if allDigitsIn 10 r' then Some (int (digitsVal 10 r')) else None)
                 else (if allDigitsIn 10 r then Some (int (digitsVal 10 r)) else None))
          else None)"

text \<open>
  StrUnsignedDecimalLiteral: \<open>Infinity\<close>, or digits with an optional fraction and an
  optional exponent, at least one digit before or after the point.
\<close>

definition StrUnsignedDecimalLiteral :: "string \<Rightarrow> jsnum" where
  "StrUnsignedDecimalLiteral s =
     (if s = ''Infinity'' then PosInfinity
      else
        let ip = takeWhile isDigit s;
            r1 = dropWhile isDigit s;
            dot = (case r1 of [] \<Rightarrow> False | c # _ \<Rightarrow> c = CHR ''.'');
            fp = (if dot then takeWhile isDigit (tl r1) else []);
            r2 = (if dot then dropWhile isDigit (tl r1) else r1)
        in if ip = [] \<and> fp = [] then NaN
           else
             (case ExponentPart r2 of
                None \<Rightarrow> NaN
              | Some e \<Rightarrow>
                  let m = (of_nat (digitsVal 10 ip) + of_nat (digitsVal 10 fp) / 10 ^ length fp :: rat)
                  in Finite (if 0 \<le> e then m * 10 ^ nat e else m / 10 ^ nat (- e))))"

definition negate :: "jsnum \<Rightarrow> jsnum" where
  "negate n =
     (case n of NaN \<Rightarrow> NaN | PosInfinity \<Rightarrow> NegInfinity | NegInfinity \<Rightarrow> PosInfinity
      | Finite x \<Rightarrow> Finite (- x))"

text \<open>
  StrNumericLiteral: a signed decimal literal, or an unsigned literal in base 16, 8 or 2
  behind \<open>0x\<close>, \<open>0o\<close> or \<open>0b\<close>.
\<close>

definition StrNumericLiteral :: "string \<Rightarrow> jsnum" where
  "StrNumericLiteral s =
     (case s of
        [] \<Rightarrow> NaN
      | c # r \<Rightarrow>
          if c = CHR ''-'' then negate (StrUnsignedDecimalLiteral r)
          else if c = CHR ''+'' then StrUnsignedDecimalLiteral r
          else if c = CHR ''0'' \<and> r \<noteq> [] \<and> hd r \<in> {CHR ''x'', CHR ''X''} then
            (if allDigitsIn 16 (tl r) then Finite (of_nat (digitsVal 16 (tl r))) else NaN)
          else if c = CHR ''0'' \<and> r \<noteq> [] \<and> hd r \<in> {CHR ''o'', CHR ''O''} then
            (if allDigitsIn 8 (tl r) then Finite (of_nat (digitsVal 8 (tl r))) else NaN)
          else if c = CHR ''0'' \<and> r \<noteq> [] \<and> hd r \<in> {CHR ''b'', CHR ''B''} then
            (if allDigitsIn 2 (tl r) then Finite (of_nat (digitsVal 2 (tl r))) else NaN)
          else StrUnsignedDecimalLiteral s)"

text \<open>
  StringToNumber: white space around the literal is dropped, and the empty string is 0.
  \<open>Finite x\<close> carries the exact value of the literal; the double that JavaScript
  computes is the double nearest to \<open>x\<close>.
\<close>

definition StringToNumber :: "string \<Rightarrow> jsnum" where
  "StringToNumber s = (let t = trim s in if t = [] then Finite 0 else StrNumericLiteral t)"

text \<open>
  \<open>n < 1\<close> on the double nearest to the exact value: the doubles next to 1 from below
  are \<open>1 - 2^-53\<close> and 1, and a value half way between them rounds to 1 (ties go to the
  even mantissa), so the rounded value is below 1 exactly when \<open>x < 1 - 2^-54\<close>.
\<close>

definition lessThanOne :: "jsnum \<Rightarrow> bool" where
  "lessThanOne n =
     (case n of NaN \<Rightarrow> False | PosInfinity \<Rightarrow> False | NegInfinity \<Rightarrow> True
      | Finite x \<Rightarrow> x < 1 - 1 / 2 ^ 54)"

text \<open>\<open>Array.prototype.join\<close> with the default separator.\<close>

fun join :: "string list \<Rightarrow> string" where
  "join [] = []"
| "join [k] = k"
| "join (k # ks) = k @ '','' @ join ks"

definition arrayLessThanOne :: "string list \<Rightarrow> bool" where
  "arrayLessThanOne ks = lessThanOne (StringToNumber (join ks))"

section \<open>Requests and responses\<close>

text \<open>
  The body is the object the JSON parser produced, as the list of its own properties in
  the order \<open>Object.keys\<close> reports them. Being an object it is truthy, so the test
  \<open>!req.body\<close> of the PATCH route is false.
\<close>

type_synonym jsobject = "(string \<times> string) list"

record request =
  sessionKeyHeader :: "string option"
  body :: jsobject

definition Object_keys :: "jsobject \<Rightarrow> string list" where
  "Object_keys b = map fst b"

definition getProp :: "jsobject \<Rightarrow> string \<Rightarrow> string option" where
  "getProp b k = map_of b k"

text \<open>
  \<open>res.sendStatus(n)\<close> is \<open>SendStatus n\<close>; \<open>res.status(n).send(obj)\<close> is \<open>Send n obj\<close>.
\<close>

datatype response = SendStatus nat | Send nat jsobject

text \<open>
  A store operation can reject its promise, and \<open>hash.update\<close> throws a TypeError on
  data that is neither a string nor a buffer; the \<open>async\<close> handler then throws before
  it has sent anything.
\<close>

datatype error = ValidationError | DuplicateKey | TypeError

section \<open>The stores\<close>

type_synonym ObjectId = nat

text \<open>
  Modelled from the spec: the schema of the User model (\<open>models/user\<close>) is not among the
  sources. The spec gives a user an identity, a name, an email with a unique index, a
  password digest and a last-updated timestamp; the routes read and write them as
  \<open>_id\<close>, \<open>name\<close>, \<open>email\<close>, \<open>password\<close> and \<open>updateAt\<close>.
\<close>

record User =
  uid :: ObjectId
  name :: string
  email :: string
  password :: string
  updateAt :: int

record Session =
  sessionKey :: string
  userId :: ObjectId
  expiredAt :: int

text \<open>
  The database: the two collections in insertion order, and the counter that stands for
  the driver's generator of fresh ObjectIds.
\<close>

record db =
  users :: "User list"
  sessions :: "Session list"
  nextId :: ObjectId

definition emptyDb :: db where
  "emptyDb = \<lparr>users = [], sessions = [], nextId = 0\<rparr>"

text \<open>The first element that satisfies the filter is replaced, or removed.\<close>

fun updateOne :: "('a \<Rightarrow> bool) \<Rightarrow> 'a \<Rightarrow> 'a list \<Rightarrow> 'a list" where
  "updateOne P y [] = []"
| "updateOne P y (x # xs) = (if P x then y # xs else x # updateOne P y xs)"

fun removeOne :: "('a \<Rightarrow> bool) \<Rightarrow> 'a list \<Rightarrow> 'a list" where
  "removeOne P [] = []"
| "removeOne P (x # xs) = (if P x then xs else x # removeOne P xs)"

definition User_findOne_email :: "User list \<Rightarrow> string \<Rightarrow> User option" where
  "User_findOne_email us e = find (\<lambda>u. email u = e) us"

definition User_findOne_email_password :: "User list \<Rightarrow> string \<Rightarrow> string \<Rightarrow> User option" where
  "User_findOne_email_password us e p = find (\<lambda>u. email u = e \<and> password u = p) us"

definition User_findById :: "User list \<Rightarrow> ObjectId \<Rightarrow> User option" where
  "User_findById us i = find (\<lambda>u. uid u = i) us"

text \<open>
  Modelled from the spec: \<open>UserDao.create\<close> and \<open>user.save\<close> of the missing User model.
  The new document gets a fresh \<open>_id\<close> and its last-updated timestamp; the unique index
  on email refuses a second document with the same email. \<open>save\<close> writes the modified
  paths of the document with this \<open>_id\<close>, and the index is consulted when the email is
  one of them.
\<close>

definition User_create :: "int \<Rightarrow> db \<Rightarrow> string \<Rightarrow> string \<Rightarrow> string \<Rightarrow> error + (db \<times> User)" where
  "User_create now d n e p =
     (if \<exists>u \<in> set (users d). email u = e then Inl DuplicateKey
      else
        let u = \<lparr>uid = nextId d, name = n, email = e, password = p, updateAt = now\<rparr>
        in Inr (d\<lparr>users := users d @ [u], nextId := Suc (nextId d)\<rparr>, u))"

definition User_save :: "User list \<Rightarrow> User \<Rightarrow> User \<Rightarrow> error + User list" where
  "User_save us old new =
     (if email new \<noteq> email old \<and> (\<exists>u \<in> set us. email u = email new) then Inl DuplicateKey
      else Inr (updateOne (\<lambda>u. uid u = uid new) new us))"

definition Session_findOne :: "Session list \<Rightarrow> string \<Rightarrow> Session option" where
  "Session_findOne ss k = find (\<lambda>s. sessionKey s = k) ss"

text \<open>
  \<open>SessionDao.create\<close> under SessionSchema: \<open>sessionKey\<close> is required (the validator of
  a required string refuses the empty string) and unique; \<open>expiredAt\<close> defaults to seven
  days after the time of creation.
\<close>

definition Session_create :: "int \<Rightarrow> Session list \<Rightarrow> string \<Rightarrow> ObjectId \<Rightarrow> error + (Session list \<times> Session)" where
  "Session_create now ss k i =
     (if k = [] then Inl ValidationError
      else if \<exists>s \<in> set ss. sessionKey s = k then Inl DuplicateKey
      else
        let s = \<lparr>sessionKey = k, userId = i, expiredAt = now + 7 * 24 * 60 * 60 * 1000\<rparr>
        in Inr (ss @ [s], s))"

definition Session_findOneAndRemove :: "Session list \<Rightarrow> string \<Rightarrow> Session list" where
  "Session_findOneAndRemove ss k = removeOne (\<lambda>s. sessionKey s = k) ss"

section \<open>The routes\<close>

text \<open>
  SHA-256 itself is a parameter \<open>H\<close>, the function from the data to the hexadecimal
  digest.
\<close>

definition sha256Hash :: "(string \<Rightarrow> string) \<Rightarrow> string \<Rightarrow> string" where
  "sha256Hash H data = H data"


text \<open>\<open>Number.prototype.toString\<close> on an integer (below \<open>10^21\<close> in size): its decimal digits.\<close>

fun natToString :: "nat \<Rightarrow> string" where
  "natToString n =
     (if n < 10 then [char_of (48 + n)]
      else natToString (n div 10) @ [char_of (48 + n mod 10)])"

definition toString :: "int \<Rightarrow> string" where
  "toString i = (if i < 0 then CHR ''-'' # natToString (nat (- i)) else natToString (nat i))"

text \<open>\<open>gensessionKey\<close>, at the time \<open>now\<close> that \<open>Date.now()\<close> returns.\<close>

definition gensessionKey :: "(string \<Rightarrow> string) \<Rightarrow> int \<Rightarrow> string" where
  "gensessionKey H now = sha256Hash H (toString now)"

text \<open>
  The interceptor either answers the request itself or sets \<open>req.params.userId\<close> and
  calls \<open>next\<close>.
\<close>

datatype gate = Rejected response | Next ObjectId

definition checkLoginInterceptor :: "Session list \<Rightarrow> request \<Rightarrow> gate" where
  "checkLoginInterceptor ss req =
     (let sessionKey = sessionKeyHeader req in
      if \<not> truthy sessionKey then Rejected (SendStatus 401)
      else
        (case Session_findOne ss (the sessionKey) of
           None \<Rightarrow> Rejected (SendStatus 401)
         | Some session \<Rightarrow> Next (userId session)))"

text \<open>
  A route takes the database and the request and returns the database it leaves and
  either the response it sent or the error it threw.
\<close>

definition post_register :: "(string \<Rightarrow> string) \<Rightarrow> int \<Rightarrow> db \<Rightarrow> request \<Rightarrow> db \<times> (error + response)" where
  "post_register H now d req =
     (let name = getProp (body req) ''name'';
          email = getProp (body req) ''email'';
          password = getProp (body req) ''password'' in
      if \<not> truthy name \<or> \<not> truthy email \<or> \<not> truthy password then (d, Inr (SendStatus 400))
      else
        (case User_findOne_email (users d) (the email) of
           Some user \<Rightarrow> (d, Inr (SendStatus 409))
         | None \<Rightarrow>
             (case User_create now d (the name) (the email) (sha256Hash H (the password)) of
                Inl err \<Rightarrow> (d, Inl err)
              | Inr (d', user) \<Rightarrow> (d', Inr (SendStatus 200)))))"


text \<open>
  \<open>Date.now()\<close> is read twice in a login: by \<open>gensessionKey\<close> (\<open>now\<close>) and by the default
  of \<open>expiredAt\<close> (\<open>now'\<close>).
\<close>

definition post_login :: "(string \<Rightarrow> string) \<Rightarrow> int \<Rightarrow> int \<Rightarrow> db \<Rightarrow> request \<Rightarrow> db \<times> (error + response)" where
  "post_login H now now' d req =
     (let email = getProp (body req) ''email'';
          password = getProp (body req) ''password'' in
      if \<not> truthy email \<or> \<not> truthy password then (d, Inr (SendStatus 400))
      else
        (case User_findOne_email_password (users d) (the email) (sha256Hash H (the password)) of
           None \<Rightarrow> (d, Inr (SendStatus 404))
         | Some user \<Rightarrow>
             (case Session_create now' (sessions d) (gensessionKey H now) (uid user) of
                Inl err \<Rightarrow> (d, Inl err)
              | Inr (ss, session) \<Rightarrow>
                  (d\<lparr>sessions := ss\<rparr>, Inr (Send 200 [(''session_key'', sessionKey session)])))))"

definition post_logout :: "db \<Rightarrow> request \<Rightarrow> db \<times> (error + response)" where
  "post_logout d req =
     (let sessionKey = sessionKeyHeader req in
      if truthy sessionKey
      then (d\<lparr>sessions := Session_findOneAndRemove (sessions d) (the sessionKey)\<rparr>, Inr (SendStatus 200))
      else (d, Inr (SendStatus 200)))"

text \<open>
  The handler of PATCH /user behind the interceptor. The three assignments are made on
  the document in memory, in the order of the source; \<open>save\<close> writes it back.
\<close>

definition patch_user_handler :: "(string \<Rightarrow> string) \<Rightarrow> int \<Rightarrow> db \<Rightarrow> ObjectId \<Rightarrow> request \<Rightarrow> db \<times> (error + response)" where
  "patch_user_handler H now d i req =
     (case User_findById (users d) i of
        None \<Rightarrow> (d, Inr (SendStatus 401))
      | Some user \<Rightarrow>
          if arrayLessThanOne (Object_keys (body req)) then (d, Inr (SendStatus 400))
          else
            let email = getProp (body req) ''email'';
                name = getProp (body req) ''name'';
                password = getProp (body req) ''password'';
                changeEmail = (truthy email \<and> User.email user \<noteq> the email) in
            if changeEmail \<and> User_findOne_email (users d) (the email) \<noteq> None
            then (d, Inr (SendStatus 409))
            else
              let user1 = (if changeEmail then user\<lparr>email := the email\<rparr> else user);
                  user2 = (if truthy name then user1\<lparr>name := the name\<rparr> else user1);
                  user3 = (if truthy password
                           then user2\<lparr>password := sha256Hash H (the password)\<rparr> else user2);
                  isUpdate = (changeEmail \<or> truthy name \<or> truthy password) in
              if isUpdate then
                (case User_save (users d) user (user3\<lparr>updateAt := now\<rparr>) of
                   Inl err \<Rightarrow> (d, Inl err)
                 | Inr us \<Rightarrow> (d\<lparr>users := us\<rparr>, Inr (SendStatus 200)))
              else (d, Inr (SendStatus 200)))"

definition patch_user :: "(string \<Rightarrow> string) \<Rightarrow> int \<Rightarrow> db \<Rightarrow> request \<Rightarrow> db \<times> (error + response)" where
  "patch_user H now d req =
     (case checkLoginInterceptor (sessions d) req of
        Rejected r \<Rightarrow> (d, Inr r)
      | Next i \<Rightarrow> patch_user_handler H now d i req)"

section \<open>Sequences of requests\<close>

datatype call =
    Register int request
  | Login int int request
  | Logout request
  | Patch int request

fun serve :: "(string \<Rightarrow> string) \<Rightarrow> db \<Rightarrow> call \<Rightarrow> db \<times> (error + response)" where
  "serve H d (Register now req) = post_register H now d req"
| "serve H d (Login now now' req) = post_login H now now' d req"
| "serve H d (Logout req) = post_logout d req"
| "serve H d (Patch now req) = patch_user H now d req"

text \<open>
  The requests are served one after the other, each on the database the one before it
  left; a handler that threw has left the database as it returns it.
\<close>

fun run :: "(string \<Rightarrow> string) \<Rightarrow> db \<Rightarrow> call list \<Rightarrow> db" where
  "run H d [] = d"
| "run H d (c # cs) = run H (fst (serve H d c)) cs"

text \<open>
  A call logs the key \<open>K\<close> out when it is a logout that presents \<open>K\<close>; it issues
  \<open>K\<close> when it is a login at a time whose generated key is \<open>K\<close>.
\<close>

fun logsOut :: "string \<Rightarrow> call \<Rightarrow> bool" where
  "logsOut K (Logout req) = (sessionKeyHeader req = Some K)"
| "logsOut K _ = False"

fun issues :: "(string \<Rightarrow> string) \<Rightarrow> string \<Rightarrow> call \<Rightarrow> bool" where
  "issues H K (Login now now' req) = (gensessionKey H now = K)"
| "issues H K _ = False"

section \<open>Well-formed collections\<close>

text \<open>
  What SessionSchema guarantees of the collection: the unique index keeps the keys
  distinct, the validator of the required string keeps them non-empty.
\<close>

definition validSessions :: "Session list \<Rightarrow> bool" where
  "validSessions ss = (distinct (map sessionKey ss) \<and> (\<forall>s \<in> set ss. sessionKey s \<noteq> []))"

section \<open>Example data\<close>

text \<open>
  Two stand-ins for the digest in the examples (injective, never empty), requests without
  and with a Session-Key header, and a database with two users, the first of them logged
  in with a session that expired long ago. The lists of calls are the scenarios the
  examples run: registrations and updates that try to reuse an email, a login of Alice at
  time 30, calls that leave her session alone, and later calls at other times.
\<close>

definition demoHash :: "string \<Rightarrow> string" where
  "demoHash s = CHR ''#'' # s"


definition jsonReq :: "jsobject \<Rightarrow> request" where
  "jsonReq b = \<lparr>sessionKeyHeader = None, body = b\<rparr>"

definition keyReq :: "string \<Rightarrow> jsobject \<Rightarrow> request" where
  "keyReq k b = \<lparr>sessionKeyHeader = Some k, body = b\<rparr>"

definition alice :: User where
  "alice = \<lparr>uid = 0, name = ''Alice'', email = ''alice@x.com'', password = ''#pw1'', updateAt = 5\<rparr>"

definition bob :: User where
  "bob = \<lparr>uid = 1, name = ''Bob'', email = ''b@x.com'', password = ''#pw'', updateAt = 6\<rparr>"

definition aliceSession :: Session where
  "aliceSession = \<lparr>sessionKey = ''#7'', userId = 0, expiredAt = 604800008\<rparr>"

definition demoDb :: db where
  "demoDb = \<lparr>users = [alice, bob], sessions = [aliceSession], nextId = 2\<rparr>"

definition demoCalls :: "call list" where
  "demoCalls =
     [Register 20 (jsonReq [(''name'', ''Bob2''), (''email'', ''b@x.com''), (''password'', ''pw2'')]),
      Patch 21 (keyReq ''#7'' [(''email'', ''b@x.com'')]),
      Patch 22 (keyReq ''#7'' [(''email'', ''a2@x.com'')]),
      Register 23 (jsonReq [(''name'', ''Alice''), (''email'', ''alice@x.com''), (''password'', ''pw1'')])]"

definition aliceLogin :: request where
  "aliceLogin = jsonReq [(''email'', ''alice@x.com''), (''password'', ''pw1'')]"

definition bobLogin :: request where
  "bobLogin = jsonReq [(''email'', ''b@x.com''), (''password'', ''pw'')]"

definition loggedIn :: db where
  "loggedIn = fst (post_login demoHash 30 30 demoDb aliceLogin)"

definition betweenCalls :: "call list" where
  "betweenCalls =
     [Login 31 31 bobLogin,
      Logout (keyReq ''#7'' []),
      Patch 32 (keyReq ''#30'' [(''password'', ''pw9'')]),
      Logout (jsonReq [])]"

definition laterCalls :: "call list" where
  "laterCalls = [Login 33 33 bobLogin, Logout (keyReq ''#31'' []), Login 34 34 bobLogin]"

section \<open>Facts about the comparison with 1\<close>

lemma arrayLessThanOne_Nil: "arrayLessThanOne []"
  by (simp add: arrayLessThanOne_def StringToNumber_def trim_def lessThanOne_def)

lemma dropWhile_keeps: "x \<in> set xs \<Longrightarrow> \<not> P x \<Longrightarrow> x \<in> set (dropWhile P xs)"
  by (induction xs) auto

lemma comma_not_space: "\<not> isWhiteSpace CHR '',''"
  by (simp add: isWhiteSpace_def)

lemma comma_not_digit: "\<not> isDigit CHR '',''"
  by (simp add: isDigit_def)

lemma trim_keeps_comma: "CHR '','' \<in> set s \<Longrightarrow> CHR '','' \<in> set (trim s)"
proof -
  assume "CHR '','' \<in> set s"
  then have "CHR '','' \<in> set (rev (dropWhile isWhiteSpace s))"
    by (simp add: dropWhile_keeps comma_not_space)
  then have "CHR '','' \<in> set (dropWhile isWhiteSpace (rev (dropWhile isWhiteSpace s)))"
    by (rule dropWhile_keeps) (rule comma_not_space)
  then show ?thesis by (simp add: trim_def)
qed

lemma digitIn_comma: "digitIn b CHR '','' = None"
  by (simp add: digitIn_def)

lemma allDigitsIn_no_comma: "CHR '','' \<in> set ds \<Longrightarrow> \<not> allDigitsIn b ds"
  using digitIn_comma by (auto simp: allDigitsIn_def list_all_iff)

lemma ExponentPart_comma: "CHR '','' \<in> set s \<Longrightarrow> ExponentPart s = None"
  by (auto simp: ExponentPart_def allDigitsIn_no_comma split: list.splits)

lemma dropWhile_digit_comma: "CHR '','' \<in> set s \<Longrightarrow> CHR '','' \<in> set (dropWhile isDigit s)"
  by (rule dropWhile_keeps) (simp_all add: comma_not_digit)

lemma Unsigned_comma: 
  assumes "CHR '','' \<in> set s" shows "StrUnsignedDecimalLiteral s = NaN"
proof -
  have ne: "s \<noteq> ''Infinity''" using assms by auto
  let ?r1 = "dropWhile isDigit s"
  have c1: "CHR '','' \<in> set ?r1" using assms by (rule dropWhile_digit_comma)
  show ?thesis
  proof (cases ?r1)
    case Nil
    with c1 show ?thesis by simp
  next
    case (Cons c r)
    show ?thesis
    proof (cases "c = CHR ''.''")
      case True
      with c1 Cons have "CHR '','' \<in> set r" by auto
      then have "CHR '','' \<in> set (dropWhile isDigit r)" by (rule dropWhile_digit_comma)
      then have "ExponentPart (dropWhile isDigit r) = None" by (rule ExponentPart_comma)
      with True Cons ne show ?thesis
        by (simp add: StrUnsignedDecimalLiteral_def Let_def)
    next
      case False
      from c1 have "ExponentPart ?r1 = None" by (rule ExponentPart_comma)
      with False Cons ne show ?thesis
        by (simp add: StrUnsignedDecimalLiteral_def Let_def)
    qed
  qed
qed

lemma Numeric_comma:
  assumes "CHR '','' \<in> set s" shows "StrNumericLiteral s = NaN"
proof (cases s)
  case Nil
  then show ?thesis by (simp add: StrNumericLiteral_def)
next
  case (Cons c r)
  have u: "StrUnsignedDecimalLiteral s = NaN" using assms by (rule Unsigned_comma)
  show ?thesis
  proof (cases "c = CHR ''-'' \<or> c = CHR ''+''")
    case True
    with assms Cons have "CHR '','' \<in> set r" by auto
    then have "StrUnsignedDecimalLiteral r = NaN" by (rule Unsigned_comma)
    with True Cons show ?thesis by (auto simp: StrNumericLiteral_def negate_def)
  next
    case False
    have pre: "c = CHR ''0'' \<Longrightarrow> r \<noteq> [] \<Longrightarrow> hd r \<noteq> CHR '','' \<Longrightarrow> \<not> allDigitsIn b (tl r)" for b
    proof -
      assume "c = CHR ''0''" "r \<noteq> []" "hd r \<noteq> CHR '',''"
      with assms Cons have "CHR '','' \<in> set (tl r)" by (cases r) auto
      then show ?thesis by (rule allDigitsIn_no_comma)
    qed
    from False Cons u show ?thesis
      by (auto simp: StrNumericLiteral_def pre)
  qed
qed

lemma StringToNumber_comma: "CHR '','' \<in> set s \<Longrightarrow> StringToNumber s = NaN"
proof -
  assume "CHR '','' \<in> set s"
  then have c: "CHR '','' \<in> set (trim s)" by (rule trim_keeps_comma)
  then have "trim s \<noteq> []" by auto
  with c show ?thesis by (simp add: StringToNumber_def Let_def Numeric_comma)
qed

lemma join_comma: "2 \<le> length ks \<Longrightarrow> CHR '','' \<in> set (join ks)"
  by (cases ks rule: join.cases) auto

lemma several_keys_not_less: "2 \<le> length ks \<Longrightarrow> \<not> arrayLessThanOne ks"
  by (simp add: arrayLessThanOne_def StringToNumber_comma join_comma lessThanOne_def)

lemma name_not_less: "\<not> arrayLessThanOne [''name'']" by code_simp
lemma email_not_less: "\<not> arrayLessThanOne [''email'']" by code_simp
lemma password_not_less: "\<not> arrayLessThanOne [''password'']" by code_simp

lemma field_key_not_less:
  assumes "k \<in> set ks" and "k \<in> {''name'', ''email'', ''password''}"
  shows "\<not> arrayLessThanOne ks"
proof (cases "2 \<le> length ks")
  case True
  then show ?thesis by (rule several_keys_not_less)
next
  case False
  then have "length ks < 2" by simp
  with assms(1) have "ks = [k]" by (cases ks; cases "tl ks") auto
  with assms(2) show ?thesis
    using name_not_less email_not_less password_not_less by auto
qed

lemma getProp_key: "getProp b k = Some v \<Longrightarrow> k \<in> set (Object_keys b)"
  by (auto simp: getProp_def Object_keys_def dest: map_of_SomeD intro: rev_image_eqI)

section \<open>Facts about the collections\<close>

lemma find_distinct_key:
  "distinct (map f xs) \<Longrightarrow> x \<in> set xs \<Longrightarrow> find (\<lambda>y. f y = f x) xs = Some x"
  by (induction xs) (auto simp: image_iff)

lemma find_map_update:
  "(\<And>x. P (g x) = P x) \<Longrightarrow> find P (map g xs) = map_option g (find P xs)"
  by (induction xs) auto

lemma find_updateOne_same:
  "find P xs = Some x \<Longrightarrow> P y \<Longrightarrow> find P (updateOne P y xs) = Some y"
  by (induction xs) (auto split: if_splits)

lemma removeOne_filter:
  "distinct (map f xs) \<Longrightarrow> removeOne (\<lambda>x. f x = k) xs = filter (\<lambda>x. f x \<noteq> k) xs"
proof (induction xs)
  case Nil
  then show ?case by simp
next
  case (Cons a xs)
  show ?case
  proof (cases "f a = k")
    case True
    with Cons.prems have "\<forall>x \<in> set xs. f x \<noteq> k" by (auto simp: image_iff)
    then have "filter (\<lambda>x. f x \<noteq> k) xs = xs" by (simp add: filter_id_conv)
    with True show ?thesis by simp
  next
    case False
    with Cons show ?thesis by simp
  qed
qed

lemmas demo_defs = demoDb_def alice_def bob_def aliceSession_def jsonReq_def keyReq_def
  demoHash_def sha256Hash_def

lemma demo_gate: "checkLoginInterceptor (sessions demoDb) (keyReq ''#7'' b) = Next 0"
  by (simp add: demo_defs checkLoginInterceptor_def truthy_def Session_findOne_def)

lemma demo_alice: "User_findById (users demoDb) 0 = Some alice"
  by (simp add: demo_defs User_findById_def)

lemma set_removeOne: "set (removeOne P xs) \<subseteq> set xs"
  by (induction xs) auto

lemma distinct_removeOne: "distinct (map f xs) \<Longrightarrow> distinct (map f (removeOne P xs))"
proof (induction xs)
  case Nil
  then show ?case by simp
next
  case (Cons a xs)
  have "f ` set (removeOne P xs) \<subseteq> f ` set xs"
    using set_removeOne [of P xs] by blast
  with Cons show ?case by auto
qed

lemma find_removeOne_other:
  "(\<And>x. Q x \<Longrightarrow> \<not> P x) \<Longrightarrow> find Q (removeOne P xs) = find Q xs"
  by (induction xs) auto

lemma find_append_Some: "find P xs = Some x \<Longrightarrow> find P (xs @ ys) = Some x"
  by (induction xs) (auto split: if_splits)

lemma find_append_None: "find P xs = None \<Longrightarrow> find P (xs @ ys) = find P ys"
  by (induction xs) (auto split: if_splits)

lemma set_updateOne: "set (updateOne P y xs) \<subseteq> insert y (set xs)"
  by (induction xs) auto

lemma distinct_updateOne:
  "distinct (map f xs) \<Longrightarrow> find P xs = Some x \<Longrightarrow> f y = f x \<or> f y \<notin> f ` set xs
    \<Longrightarrow> distinct (map f (updateOne P y xs))"
proof (induction xs)
  case Nil
  then show ?case by simp
next
  case (Cons a xs)
  show ?case
  proof (cases "P a")
    case True
    with Cons.prems show ?thesis by auto
  next
    case False
    with Cons.prems have fx: "find P xs = Some x" by simp
    then have xin: "x \<in> set xs" by (auto simp: find_Some_iff)
    from Cons.prems have fa: "f a \<notin> f ` set xs" by simp
    with xin have "f a \<noteq> f x" by auto
    with Cons.prems(3) have "f a \<noteq> f y" by auto
    with fa have "f a \<notin> f ` set (updateOne P y xs)"
      using set_updateOne [of P y xs] by auto
    moreover have "distinct (map f (updateOne P y xs))"
      using Cons.IH Cons.prems fx by auto
    ultimately show ?thesis using False by simp
  qed
qed

subsection \<open>What each route leaves of the collections\<close>

lemma register_sessions: "sessions (fst (post_register H now d req)) = sessions d"
  by (simp add: post_register_def User_create_def Let_def split: option.splits)

lemma login_users: "users (fst (post_login H now now' d req)) = users d"
  by (simp add: post_login_def Session_create_def Let_def split: option.splits)

lemma logout_users: "users (fst (post_logout d req)) = users d"
  by (simp add: post_logout_def Let_def)

lemma patch_handler_sessions: "sessions (fst (patch_user_handler H now d i req)) = sessions d"
  by (simp add: patch_user_handler_def Let_def split: option.splits sum.splits)

lemma patch_sessions: "sessions (fst (patch_user H now d req)) = sessions d"
  by (simp add: patch_user_def patch_handler_sessions split: gate.splits)

lemma register_emails:
  "distinct (map email (users d)) \<Longrightarrow> distinct (map email (users (fst (post_register H now d req))))"
  by (auto simp: post_register_def User_create_def Let_def split: option.splits)

lemma patch_handler_emails:
  assumes "distinct (map email (users d))"
  shows "distinct (map email (users (fst (patch_user_handler H now d i req))))"
proof (cases "User_findById (users d) i")
  case None
  with assms show ?thesis by (simp add: patch_user_handler_def)
next
  case (Some user)
  let ?e = "getProp (body req) ''email''"
  let ?change = "truthy ?e \<and> email user \<noteq> the ?e"
  let ?u1 = "if ?change then user\<lparr>email := the ?e\<rparr> else user"
  let ?u2 = "if truthy (getProp (body req) ''name'') then ?u1\<lparr>name := the (getProp (body req) ''name'')\<rparr> else ?u1"
  let ?u3 = "if truthy (getProp (body req) ''password'')
             then ?u2\<lparr>password := sha256Hash H (the (getProp (body req) ''password''))\<rparr> else ?u2"
  let ?new = "?u3\<lparr>updateAt := now\<rparr>"
  have uidn: "uid ?new = uid user" by simp
  have ui: "uid user = i" using Some by (auto simp: User_findById_def find_Some_iff)
  have fnd: "find (\<lambda>u. uid u = uid ?new) (users d) = Some user"
    using Some ui unfolding User_findById_def uidn by simp
  have em: "email ?new = (if ?change then the ?e else email user)" by simp
  have saved: "distinct (map email (updateOne (\<lambda>u. uid u = uid ?new) ?new (users d)))"
    if "?change \<longrightarrow> User_findOne_email (users d) (the ?e) = None"
  proof (rule distinct_updateOne [OF assms fnd])
    show "email ?new = email user \<or> email ?new \<notin> email ` set (users d)"
    proof (cases ?change)
      case True
      with that have "\<forall>u \<in> set (users d). email u \<noteq> the ?e"
        by (simp add: User_findOne_email_def find_None_iff)
      with True em show ?thesis by auto
    next
      case False
      with em show ?thesis by simp
    qed
  qed
  show ?thesis
  proof (cases "?change \<longrightarrow> User_findOne_email (users d) (the ?e) = None")
    case True
    from saved [OF True] assms Some True show ?thesis
      unfolding patch_user_handler_def User_save_def Let_def
      by (auto split: if_splits)
  next
    case False
    with assms Some show ?thesis
      by (auto simp: patch_user_handler_def Let_def)
  qed
qed

lemma patch_emails:
  "distinct (map email (users d)) \<Longrightarrow> distinct (map email (users (fst (patch_user H now d req))))"
  by (simp add: patch_user_def patch_handler_emails split: gate.splits)

lemma serve_emails:
  "distinct (map email (users d)) \<Longrightarrow> distinct (map email (users (fst (serve H d c))))"
  by (cases c) (simp_all add: register_emails patch_emails login_users logout_users)

lemma run_emails:
  "distinct (map email (users d)) \<Longrightarrow> distinct (map email (users (run H d cs)))"
  by (induction cs arbitrary: d) (simp_all add: serve_emails)

lemma demo_run_emails:
  "map email (users (run demoHash demoDb demoCalls)) = [''a2@x.com'', ''b@x.com'', ''alice@x.com'']"
  by code_simp

lemma demo_run_responses:
  "snd (serve demoHash demoDb (demoCalls ! 0)) = Inr (SendStatus 409)
   \<and> snd (serve demoHash demoDb (demoCalls ! 1)) = Inr (SendStatus 409)
   \<and> snd (serve demoHash demoDb (demoCalls ! 2)) = Inr (SendStatus 200)"
  by code_simp

text \<open>The unique index on email never has to refuse a write: the routes look first.\<close>

lemma register_never_throws: "snd (post_register H now d req) \<noteq> Inl err"
  by (auto simp: post_register_def User_create_def User_findOne_email_def find_None_iff Let_def
      split: option.splits)

lemma patch_never_throws: "snd (patch_user H now d req) \<noteq> Inl err"
  by (auto simp: patch_user_def patch_user_handler_def User_save_def User_findOne_email_def
      find_None_iff Let_def split: option.splits gate.splits)

lemma login_sessions_cases:
  "sessions (fst (post_login H now now' d req)) = sessions d
   \<or> (gensessionKey H now \<noteq> [] \<and> (\<forall>s \<in> set (sessions d). sessionKey s \<noteq> gensessionKey H now)
      \<and> (\<exists>u \<in> set (users d). sessions (fst (post_login H now now' d req))
            = sessions d @ [\<lparr>sessionKey = gensessionKey H now, userId = uid u,
                              expiredAt = now' + 7 * 24 * 60 * 60 * 1000\<rparr>]))"
  by (auto simp: post_login_def Session_create_def User_findOne_email_password_def Let_def
      find_Some_iff split: option.splits)

lemma login_success:
  assumes "post_login H now now' d req = (d', Inr (Send 200 [(''session_key'', K)]))"
  shows "K = gensessionKey H now \<and> K \<noteq> [] \<and> (\<forall>s \<in> set (sessions d). sessionKey s \<noteq> K)
     \<and> (\<exists>u \<in> set (users d). d' = d\<lparr>sessions := sessions d @
           [\<lparr>sessionKey = K, userId = uid u, expiredAt = now' + 7 * 24 * 60 * 60 * 1000\<rparr>]\<rparr>)"
  using assms
  by (auto simp: post_login_def Session_create_def User_findOne_email_password_def Let_def
      find_Some_iff split: option.splits if_splits)

lemma logout_sessions:
  assumes v: "validSessions (sessions d)"
  shows "sessions (fst (post_logout d req))
          = filter (\<lambda>s. Some (sessionKey s) \<noteq> sessionKeyHeader req) (sessions d)"
proof (cases "sessionKeyHeader req")
  case None
  then show ?thesis by (simp add: post_logout_def truthy_def)
next
  case (Some k)
  show ?thesis
  proof (cases "k = []")
    case True
    with v have "filter (\<lambda>s. sessionKey s \<noteq> k) (sessions d) = sessions d"
      by (auto simp: validSessions_def filter_id_conv)
    with True Some show ?thesis by (simp add: post_logout_def truthy_def)
  next
    case False
    with v Some show ?thesis
      by (simp add: post_logout_def truthy_def Session_findOneAndRemove_def
          validSessions_def removeOne_filter)
  qed
qed

lemma logout_sessions_subset: "set (sessions (fst (post_logout d req))) \<subseteq> set (sessions d)"
  using set_removeOne [of _ "sessions d"]
  by (auto simp: post_logout_def Session_findOneAndRemove_def Let_def)

lemma serve_keeps_session:
  assumes "Session_findOne (sessions d) K = Some s" and "\<not> logsOut K c"
  shows "Session_findOne (sessions (fst (serve H d c))) K = Some s"
proof (cases c)
  case (Register now req)
  with assms show ?thesis by (simp add: register_sessions)
next
  case (Login now now' req)
  from login_sessions_cases [of H now now' d req] assms(1) Login show ?thesis
    by (auto simp: Session_findOne_def find_append_Some)
next
  case (Logout req)
  show ?thesis
  proof (cases "truthy (sessionKeyHeader req)")
    case False
    with assms Logout show ?thesis by (simp add: post_logout_def)
  next
    case True
    then obtain k where k: "sessionKeyHeader req = Some k" by (cases "sessionKeyHeader req") (auto simp: truthy_def)
    with assms(2) Logout have "k \<noteq> K" by auto
    then have "find (\<lambda>s. sessionKey s = K) (removeOne (\<lambda>s. sessionKey s = k) (sessions d))
        = find (\<lambda>s. sessionKey s = K) (sessions d)"
      by (intro find_removeOne_other) auto
    with True k assms(1) Logout show ?thesis
      by (simp add: post_logout_def Session_findOne_def Session_findOneAndRemove_def)
  qed
next
  case (Patch now req)
  with assms show ?thesis by (simp add: patch_sessions)
qed

lemma run_keeps_session:
  "Session_findOne (sessions d) K = Some s \<Longrightarrow> \<forall>c \<in> set cs. \<not> logsOut K c
    \<Longrightarrow> Session_findOne (sessions (run H d cs)) K = Some s"
  by (induction cs arbitrary: d) (simp_all add: serve_keeps_session)

lemma serve_keeps_absent:
  assumes "Session_findOne (sessions d) K = None" and "\<not> issues H K c"
  shows "Session_findOne (sessions (fst (serve H d c))) K = None"
proof (cases c)
  case (Register now req)
  with assms show ?thesis by (simp add: register_sessions)
next
  case (Login now now' req)
  with assms(2) have "gensessionKey H now \<noteq> K" by simp
  with login_sessions_cases [of H now now' d req] assms(1) Login show ?thesis
    by (auto simp: Session_findOne_def find_append_None)
next
  case (Logout req)
  with assms(1) logout_sessions_subset [of d req] show ?thesis
    by (auto simp: Session_findOne_def find_None_iff)
next
  case (Patch now req)
  with assms show ?thesis by (simp add: patch_sessions)
qed

lemma run_keeps_absent:
  "Session_findOne (sessions d) K = None \<Longrightarrow> \<forall>c \<in> set cs. \<not> issues H K c
    \<Longrightarrow> Session_findOne (sessions (run H d cs)) K = None"
  by (induction cs arbitrary: d) (simp_all add: serve_keeps_absent)

lemma serve_valid:
  assumes "validSessions (sessions d)"
  shows "validSessions (sessions (fst (serve H d c)))"
proof (cases c)
  case (Register now req)
  with assms show ?thesis by (simp add: register_sessions)
next
  case (Login now now' req)
  with login_sessions_cases [of H now now' d req] assms show ?thesis
    by (fastforce simp: validSessions_def)
next
  case (Logout req)
  with assms show ?thesis
    by (auto simp: logout_sessions validSessions_def distinct_map_filter)
next
  case (Patch now req)
  with assms show ?thesis by (simp add: patch_sessions)
qed

lemma run_valid: "validSessions (sessions d) \<Longrightarrow> validSessions (sessions (run H d cs))"
  by (induction cs arbitrary: d) (simp_all add: serve_valid)

text \<open>Every session collection reached from the empty database respects SessionSchema.\<close>

lemma reachable_valid: "validSessions (sessions (run H emptyDb cs))"
  by (rule run_valid) (simp add: emptyDb_def validSessions_def)

lemma gate_found:
  "sessionKeyHeader r = Some K \<Longrightarrow> K \<noteq> [] \<Longrightarrow> Session_findOne ss K = Some s
    \<Longrightarrow> checkLoginInterceptor ss r = Next (userId s)"
  by (simp add: checkLoginInterceptor_def truthy_def)

lemma gate_absent:
  "sessionKeyHeader r = Some K \<Longrightarrow> Session_findOne ss K = None
    \<Longrightarrow> checkLoginInterceptor ss r = Rejected (SendStatus 401)"
  by (simp add: checkLoginInterceptor_def Let_def)

lemma demo_valid: "validSessions (sessions demoDb)"
  by (simp add: demo_defs validSessions_def)

lemma demo_login:
  "post_login demoHash 30 30 demoDb aliceLogin = (loggedIn, Inr (Send 200 [(''session_key'', ''#30'')]))"
  unfolding loggedIn_def by code_simp

lemma demo_between: "\<forall>c \<in> set betweenCalls. \<not> logsOut ''#30'' c"
  by (simp add: betweenCalls_def keyReq_def jsonReq_def)

lemma demo_later: "\<forall>c \<in> set laterCalls. \<not> issues demoHash ''#30'' c"
  unfolding laterCalls_def by code_simp


text \<open>
  A body whose only key is none of the three is not empty: its key is no number, the
  comparison is one with NaN, and the request is answered 200 without a write.
\<close>

lemma demo_other_key:
  "patch_user demoHash 11 demoDb (keyReq ''#7'' [(''foo'', ''x'')]) = (demoDb, Inr (SendStatus 200))"
  by code_simp

section \<open>The claims\<close>

text \<open>
  Claim C1 (Auth Gate contract). A request without a Session-Key header, or with an empty
  one, is answered 401. A request whose key is the key of no Session document is answered
  401. A request whose key is the key of a Session document of the collection goes on to
  the next handler with that session's \<open>userId\<close>. The answer does not depend on
  \<open>expiredAt\<close>: rewriting every expiry of the collection, to the past as well, changes
  nothing, so an expired session is accepted as long as its document is there.
\<close>

theorem auth_gate_contract:
  "(\<not> truthy (sessionKeyHeader req) \<longrightarrow>
      checkLoginInterceptor ss req = Rejected (SendStatus 401))
   \<and> (sessionKeyHeader req = Some k \<and> (\<forall>s \<in> set ss. sessionKey s \<noteq> k) \<longrightarrow>
      checkLoginInterceptor ss req = Rejected (SendStatus 401))
   \<and> (sessionKeyHeader req = Some (sessionKey s) \<and> s \<in> set ss \<and> validSessions ss \<longrightarrow>
      checkLoginInterceptor ss req = Next (userId s))
   \<and> checkLoginInterceptor (map (\<lambda>s. s\<lparr>expiredAt := f s\<rparr>) ss) req = checkLoginInterceptor ss req"
proof (intro conjI impI)
  assume "\<not> truthy (sessionKeyHeader req)"
  then show "checkLoginInterceptor ss req = Rejected (SendStatus 401)"
    by (simp add: checkLoginInterceptor_def)
next
  assume "sessionKeyHeader req = Some k \<and> (\<forall>s \<in> set ss. sessionKey s \<noteq> k)"
  then have "sessionKeyHeader req = Some k" and "Session_findOne ss k = None"
    by (auto simp: Session_findOne_def find_None_iff)
  then show "checkLoginInterceptor ss req = Rejected (SendStatus 401)"
    by (simp add: checkLoginInterceptor_def Let_def)
next
  assume a: "sessionKeyHeader req = Some (sessionKey s) \<and> s \<in> set ss \<and> validSessions ss"
  then have "Session_findOne ss (sessionKey s) = Some s"
    by (simp add: Session_findOne_def validSessions_def find_distinct_key)
  moreover from a have "truthy (sessionKeyHeader req)"
    by (auto simp: truthy_def validSessions_def)
  ultimately show "checkLoginInterceptor ss req = Next (userId s)"
    using a by (simp add: checkLoginInterceptor_def Let_def)
next
  have "Session_findOne (map (\<lambda>s. s\<lparr>expiredAt := f s\<rparr>) ss) k
        = map_option (\<lambda>s. s\<lparr>expiredAt := f s\<rparr>) (Session_findOne ss k)" for k
    unfolding Session_findOne_def by (rule find_map_update) simp
  then show "checkLoginInterceptor (map (\<lambda>s. s\<lparr>expiredAt := f s\<rparr>) ss) req = checkLoginInterceptor ss req"
    by (simp add: checkLoginInterceptor_def Let_def split: option.splits)
qed

text \<open>The statement above on the example database.\<close>

theorem auth_gate_contract_witness:
  "checkLoginInterceptor (sessions demoDb) (jsonReq []) = Rejected (SendStatus 401)
   \<and> checkLoginInterceptor (sessions demoDb) (keyReq ''#8'' []) = Rejected (SendStatus 401)
   \<and> checkLoginInterceptor (sessions demoDb) (keyReq ''#7'' []) = Next 0
   \<and> expiredAt aliceSession < 1700000000000
   \<and> checkLoginInterceptor (map (\<lambda>s. s\<lparr>expiredAt := 0\<rparr>) (sessions demoDb)) (keyReq ''#7'' [])
       = checkLoginInterceptor (sessions demoDb) (keyReq ''#7'' [])"
  using auth_gate_contract [where req = "jsonReq []" and ss = "sessions demoDb"]
    auth_gate_contract [where req = "keyReq ''#8'' []" and ss = "sessions demoDb" and k = "''#8''"]
    auth_gate_contract [where req = "keyReq ''#7'' []" and ss = "sessions demoDb"
      and s = aliceSession and f = "\<lambda>s. 0"]
  by (simp add: demo_defs truthy_def validSessions_def)

text \<open>
  Claim C2 (Login failure symmetry). In every user store, a login with an email that no
  stored user has, and a login with the email of a stored user and a password whose digest
  differs from the stored one, are both answered with the same \<open>sendStatus(404)\<close>, and
  neither changes the database: the query matches email and digest together.
\<close>

theorem login_failure_symmetry:
  assumes "getProp (body r1) ''email'' = Some e1" and "getProp (body r1) ''password'' = Some p1"
    and "getProp (body r2) ''email'' = Some e2" and "getProp (body r2) ''password'' = Some p2"
    and "e1 \<noteq> []" and "p1 \<noteq> []" and "e2 \<noteq> []" and "p2 \<noteq> []"
    and unknown: "\<forall>u \<in> set (users d). email u \<noteq> e1"
    and known: "\<exists>u \<in> set (users d). email u = e2"
    and wrong: "\<forall>u \<in> set (users d). email u = e2 \<longrightarrow> password u \<noteq> sha256Hash H p2"
  shows "post_login H t1 t1' d r1 = (d, Inr (SendStatus 404))
       \<and> post_login H t2 t2' d r2 = (d, Inr (SendStatus 404))"
proof -
  from unknown have "User_findOne_email_password (users d) e1 (sha256Hash H p1) = None"
    by (auto simp: User_findOne_email_password_def find_None_iff)
  moreover from wrong have "User_findOne_email_password (users d) e2 (sha256Hash H p2) = None"
    by (auto simp: User_findOne_email_password_def find_None_iff)
  ultimately show ?thesis using assms(1-8)
    by (simp add: post_login_def truthy_def)
qed

text \<open>The statement above on the example database.\<close>

theorem login_failure_symmetry_witness:
  "post_login demoHash 7 8 demoDb (jsonReq [(''email'', ''carol@x.com''), (''password'', ''pw1'')])
     = (demoDb, Inr (SendStatus 404))
   \<and> post_login demoHash 9 9 demoDb (jsonReq [(''email'', ''alice@x.com''), (''password'', ''pw2'')])
     = (demoDb, Inr (SendStatus 404))"
  using login_failure_symmetry [where d = demoDb and H = demoHash
      and ?r1.0 = "jsonReq [(''email'', ''carol@x.com''), (''password'', ''pw1'')]"
      and ?e1.0 = "''carol@x.com''" and ?p1.0 = "''pw1''"
      and ?r2.0 = "jsonReq [(''email'', ''alice@x.com''), (''password'', ''pw2'')]"
      and ?e2.0 = "''alice@x.com''" and ?p2.0 = "''pw2''"
      and ?t1.0 = 7 and t1' = 8 and ?t2.0 = 9 and t2' = 9]
  by (simp add: demo_defs getProp_def)




text \<open>
  Claim C4 (Session token lifecycle), as amended. Let a login on a database that respects
  SessionSchema succeed and return the token \<open>K\<close>. Then the interceptor passes every
  request that presents \<open>K\<close>, with the id of a stored user, at once and after any calls
  among which no logout presents \<open>K\<close>. After a logout that presents \<open>K\<close>, whatever
  happened before it, the interceptor answers 401 to every request that presents \<open>K\<close>,
  after any calls among which no login generates \<open>K\<close> again, that is, no login runs at
  a time whose digest is \<open>K\<close>.
\<close>

theorem session_token_lifecycle:
  assumes valid: "validSessions (sessions d)"
    and login: "post_login H now now' d req = (d', Inr (Send 200 [(''session_key'', K)]))"
    and r: "sessionKeyHeader r = Some K"
    and out: "sessionKeyHeader r' = Some K"
  shows "((\<forall>c \<in> set cs. \<not> logsOut K c) \<longrightarrow>
            (\<exists>u \<in> set (users d). checkLoginInterceptor (sessions (run H d' cs)) r = Next (uid u)))
       \<and> ((\<forall>c \<in> set cs'. \<not> issues H K c) \<longrightarrow>
            checkLoginInterceptor (sessions (run H (fst (post_logout (run H d' cs) r')) cs')) r
              = Rejected (SendStatus 401))"
proof (intro conjI impI)
  from login_success [OF login] obtain u where K: "K \<noteq> []" and fresh: "\<forall>s \<in> set (sessions d). sessionKey s \<noteq> K"
    and u: "u \<in> set (users d)"
    and d': "d' = d\<lparr>sessions := sessions d @
           [\<lparr>sessionKey = K, userId = uid u, expiredAt = now' + 7 * 24 * 60 * 60 * 1000\<rparr>]\<rparr>"
    by blast
  assume "\<forall>c \<in> set cs. \<not> logsOut K c"
  moreover from fresh d' have "Session_findOne (sessions d') K
      = Some \<lparr>sessionKey = K, userId = uid u, expiredAt = now' + 7 * 24 * 60 * 60 * 1000\<rparr>"
    by (simp add: Session_findOne_def find_append_None find_None_iff)
  ultimately have "Session_findOne (sessions (run H d' cs)) K
      = Some \<lparr>sessionKey = K, userId = uid u, expiredAt = now' + 7 * 24 * 60 * 60 * 1000\<rparr>"
    by (intro run_keeps_session)
  with r K have "checkLoginInterceptor (sessions (run H d' cs)) r = Next (uid u)"
    by (simp add: gate_found)
  with u show "\<exists>u \<in> set (users d). checkLoginInterceptor (sessions (run H d' cs)) r = Next (uid u)"
    by blast
next
  assume no: "\<forall>c \<in> set cs'. \<not> issues H K c"
  have "validSessions (sessions d')"
    using serve_valid [OF valid, of H "Login now now' req"] login by simp
  then have "validSessions (sessions (run H d' cs))" by (rule run_valid)
  then have "sessions (fst (post_logout (run H d' cs) r'))
      = filter (\<lambda>s. Some (sessionKey s) \<noteq> sessionKeyHeader r') (sessions (run H d' cs))"
    by (rule logout_sessions)
  with out have "Session_findOne (sessions (fst (post_logout (run H d' cs) r'))) K = None"
    by (simp add: Session_findOne_def find_None_iff)
  with no have "Session_findOne (sessions (run H (fst (post_logout (run H d' cs) r')) cs')) K = None"
    by (intro run_keeps_absent)
  with r show "checkLoginInterceptor (sessions (run H (fst (post_logout (run H d' cs) r')) cs')) r
              = Rejected (SendStatus 401)"
    by (rule gate_absent)
qed

text \<open>The statement above on the example database.\<close>

theorem session_token_lifecycle_witness:
  "(\<exists>u \<in> set (users demoDb).
      checkLoginInterceptor (sessions (run demoHash loggedIn betweenCalls)) (keyReq ''#30'' []) = Next (uid u))
   \<and> checkLoginInterceptor
        (sessions (run demoHash (fst (post_logout (run demoHash loggedIn betweenCalls) (keyReq ''#30'' []))) laterCalls))
        (keyReq ''#30'' []) = Rejected (SendStatus 401)"
  using session_token_lifecycle [OF demo_valid demo_login, of "keyReq ''#30'' []" "keyReq ''#30'' []"
      betweenCalls laterCalls] demo_between demo_later
  by (simp add: keyReq_def)

text \<open>
  Claim C4 as stated, with every later presentation rejected after the logout, fails: the
  token is a function of the time alone. Alice logs in at time 30 and gets the token of
  30, which the interceptor accepts; she logs out and the token is rejected; Bob then logs
  in at a moment when \<open>Date.now()\<close> again returns 30, the same token is created anew,
  and the interceptor accepts Alice's old token, now as Bob.
\<close>

theorem session_token_lifecycle_counterexample:
  "post_login demoHash 30 30 demoDb aliceLogin = (loggedIn, Inr (Send 200 [(''session_key'', ''#30'')]))
   \<and> checkLoginInterceptor (sessions loggedIn) (keyReq ''#30'' []) = Next 0
   \<and> checkLoginInterceptor (sessions (fst (post_logout loggedIn (keyReq ''#30'' [])))) (keyReq ''#30'' [])
       = Rejected (SendStatus 401)
   \<and> checkLoginInterceptor
        (sessions (run demoHash (fst (post_logout loggedIn (keyReq ''#30'' []))) [Login 30 35 bobLogin]))
        (keyReq ''#30'' []) = Next 1"
  unfolding loggedIn_def by code_simp

text \<open>
  Claim C5 (UpdateProfile rejects an empty body). For an authenticated request whose user
  exists and whose body, a partial \<open>{name?, email?, password?}\<close>, contains none of the
  three properties, the answer is 400 and the database is unchanged: the keys of the empty
  object are the empty array, which \<open><\<close> turns into the empty string and then into 0.
\<close>

theorem patch_rejects_empty_body:
  assumes "checkLoginInterceptor (sessions d) req = Next i"
    and "User_findById (users d) i = Some u"
    and "set (Object_keys (body req)) \<subseteq> {''name'', ''email'', ''password''}"
    and "getProp (body req) ''name'' = None"
    and "getProp (body req) ''email'' = None"
    and "getProp (body req) ''password'' = None"
  shows "patch_user H now d req = (d, Inr (SendStatus 400))"
proof -
  have "k \<notin> set (Object_keys (body req))" for k
  proof
    assume k: "k \<in> set (Object_keys (body req))"
    then have "getProp (body req) k \<noteq> None"
      by (simp add: getProp_def Object_keys_def map_of_eq_None_iff)
    moreover from k assms(3) have "k \<in> {''name'', ''email'', ''password''}" by blast
    ultimately show False using assms(4-6) by auto
  qed
  then have "Object_keys (body req) = []" by (cases "Object_keys (body req)") auto
  then have "arrayLessThanOne (Object_keys (body req))" by (simp add: arrayLessThanOne_Nil)
  with assms(1,2) show ?thesis
    by (simp add: patch_user_def patch_user_handler_def)
qed

text \<open>The statement above on the example database.\<close>

theorem patch_rejects_empty_body_witness:
  "patch_user demoHash 11 demoDb (keyReq ''#7'' []) = (demoDb, Inr (SendStatus 400))"
  using patch_rejects_empty_body [where d = demoDb and req = "keyReq ''#7'' []" and i = 0
      and u = alice and H = demoHash and now = 11]
  by (simp add: demo_gate demo_alice) (simp add: keyReq_def getProp_def Object_keys_def)

text \<open>
  Claim C6 (UpdateProfile email conflict). For an authenticated request whose user exists
  and whose body gives a non-empty email that differs from the user's and is the email of
  a stored user, the answer is 409 and the whole database is unchanged, the requesting
  user's email, name, password and \<open>updateAt\<close> with it.
\<close>

theorem patch_email_conflict:
  assumes "checkLoginInterceptor (sessions d) req = Next i"
    and "User_findById (users d) i = Some u"
    and "getProp (body req) ''email'' = Some e" and "e \<noteq> []"
    and "e \<noteq> email u"
    and "v \<in> set (users d)" and "email v = e"
  shows "patch_user H now d req = (d, Inr (SendStatus 409))
       \<and> User_findById (users (fst (patch_user H now d req))) i = Some u"
proof -
  from assms(3) have "''email'' \<in> set (Object_keys (body req))" by (rule getProp_key)
  then have "\<not> arrayLessThanOne (Object_keys (body req))"
    by (rule field_key_not_less) simp
  moreover from assms(6,7) have "User_findOne_email (users d) e \<noteq> None"
    by (auto simp: User_findOne_email_def find_None_iff)
  ultimately have "patch_user H now d req = (d, Inr (SendStatus 409))" using assms(1-5)
    by (simp add: patch_user_def patch_user_handler_def truthy_def Let_def)
  with assms(2) show ?thesis by simp
qed

text \<open>The statement above on the example database.\<close>

theorem patch_email_conflict_witness:
  "patch_user demoHash 11 demoDb (keyReq ''#7'' [(''email'', ''b@x.com'')]) = (demoDb, Inr (SendStatus 409))
   \<and> User_findById (users (fst (patch_user demoHash 11 demoDb (keyReq ''#7'' [(''email'', ''b@x.com'')])))) 0
       = Some alice"
proof -
  have e: "getProp (body (keyReq ''#7'' [(''email'', ''b@x.com'')])) ''email'' = Some ''b@x.com''"
    by (simp add: keyReq_def getProp_def)
  have ne: "''b@x.com'' \<noteq> []" by simp
  have other: "''b@x.com'' \<noteq> email alice" by (simp add: alice_def)
  have stored: "bob \<in> set (users demoDb)" by (simp add: demoDb_def)
  have bobs: "email bob = ''b@x.com''" by (simp add: bob_def)
  show ?thesis
    by (rule patch_email_conflict [OF demo_gate demo_alice e ne other stored bobs])
qed

text \<open>
  Claim C7 (Logout is idempotent and has no error path). Logout always answers 200 and
  never touches the users, whatever the header and the session collection. On a collection
  that respects SessionSchema it leaves exactly the sessions whose key is not the presented
  one, and a second logout with the same request gives the same answer and the same
  database as the first.
\<close>

theorem logout_idempotent:
  "snd (post_logout d req) = Inr (SendStatus 200)
   \<and> users (fst (post_logout d req)) = users d
   \<and> (validSessions (sessions d) \<longrightarrow>
        sessions (fst (post_logout d req))
          = filter (\<lambda>s. Some (sessionKey s) \<noteq> sessionKeyHeader req) (sessions d)
        \<and> post_logout (fst (post_logout d req)) req = post_logout d req)"
proof (intro conjI impI)
  show "snd (post_logout d req) = Inr (SendStatus 200)"
    by (simp add: post_logout_def Let_def)
  show "users (fst (post_logout d req)) = users d"
    by (rule logout_users)
next
  assume v: "validSessions (sessions d)"
  then show "sessions (fst (post_logout d req))
          = filter (\<lambda>s. Some (sessionKey s) \<noteq> sessionKeyHeader req) (sessions d)"
    by (rule logout_sessions)
  show "post_logout (fst (post_logout d req)) req = post_logout d req"
  proof (cases "truthy (sessionKeyHeader req)")
    case False
    then show ?thesis by (simp add: post_logout_def)
  next
    case True
    then obtain k where k: "sessionKeyHeader req = Some k" "k \<noteq> []"
      by (auto simp: truthy_def split: option.splits)
    from v have d: "distinct (map sessionKey (sessions d))" by (simp add: validSessions_def)
    then have d': "distinct (map sessionKey (filter (\<lambda>s. sessionKey s \<noteq> k) (sessions d)))"
      by (rule distinct_map_filter)
    show ?thesis using True k d d'
      by (simp add: post_logout_def Session_findOneAndRemove_def removeOne_filter)
  qed
qed

text \<open>The statement above on the example database.\<close>

theorem logout_idempotent_witness:
  "post_logout demoDb (keyReq ''#7'' []) = (demoDb\<lparr>sessions := []\<rparr>, Inr (SendStatus 200))
   \<and> post_logout (demoDb\<lparr>sessions := []\<rparr>) (keyReq ''#7'' []) = (demoDb\<lparr>sessions := []\<rparr>, Inr (SendStatus 200))
   \<and> post_logout demoDb (jsonReq []) = (demoDb, Inr (SendStatus 200))"
proof -
  have v: "validSessions (sessions demoDb)"
    by (simp add: demo_defs validSessions_def)
  have a: "post_logout demoDb (keyReq ''#7'' []) = (demoDb\<lparr>sessions := []\<rparr>, Inr (SendStatus 200))"
    by (simp add: demo_defs post_logout_def truthy_def Session_findOneAndRemove_def)
  have b: "post_logout demoDb (jsonReq []) = (demoDb, Inr (SendStatus 200))"
    by (simp add: demo_defs post_logout_def truthy_def)
  from v a logout_idempotent [of demoDb "keyReq ''#7'' []"]
  have "post_logout (demoDb\<lparr>sessions := []\<rparr>) (keyReq ''#7'' []) = (demoDb\<lparr>sessions := []\<rparr>, Inr (SendStatus 200))"
    by simp
  with a b show ?thesis by simp
qed

text \<open>
  Claim C8 (Name-only update). For an authenticated request whose user exists and whose
  body gives a non-empty name and neither an email nor a password, the answer is 200 and
  the stored document of the user is replaced by one with the new name, the same email
  and password digest, and \<open>updateAt\<close> set to the current time; reading the user back
  returns that document.
\<close>

theorem patch_name_only:
  assumes "checkLoginInterceptor (sessions d) req = Next i"
    and "User_findById (users d) i = Some u"
    and "getProp (body req) ''name'' = Some n" and "n \<noteq> []"
    and "\<not> truthy (getProp (body req) ''email'')"
    and "\<not> truthy (getProp (body req) ''password'')"
  shows "patch_user H now d req =
           (d\<lparr>users := updateOne (\<lambda>v. uid v = i) (u\<lparr>name := n, updateAt := now\<rparr>) (users d)\<rparr>,
            Inr (SendStatus 200))
       \<and> User_findById (users (fst (patch_user H now d req))) i
           = Some \<lparr>uid = i, name = n, email = email u, password = password u, updateAt = now\<rparr>"
proof -
  from assms(2) have i: "uid u = i"
    by (auto simp: User_findById_def find_Some_iff)
  from assms(3) have "''name'' \<in> set (Object_keys (body req))" by (rule getProp_key)
  then have nl: "\<not> arrayLessThanOne (Object_keys (body req))"
    by (rule field_key_not_less) simp
  have r: "patch_user H now d req =
           (d\<lparr>users := updateOne (\<lambda>v. uid v = i) (u\<lparr>name := n, updateAt := now\<rparr>) (users d)\<rparr>,
            Inr (SendStatus 200))"
    using assms nl i
    by (simp add: patch_user_def patch_user_handler_def truthy_def Let_def User_save_def)
  have "find (\<lambda>v. uid v = i) (updateOne (\<lambda>v. uid v = i) (u\<lparr>name := n, updateAt := now\<rparr>) (users d))
          = Some (u\<lparr>name := n, updateAt := now\<rparr>)"
    using assms(2) i unfolding User_findById_def by (intro find_updateOne_same) simp_all
  moreover have "u\<lparr>name := n, updateAt := now\<rparr>
      = \<lparr>uid = i, name = n, email = email u, password = password u, updateAt = now\<rparr>"
    using i by (cases u) simp
  ultimately show ?thesis using r by (simp add: User_findById_def)
qed

text \<open>The statement above on the example database.\<close>

theorem patch_name_only_witness:
  "patch_user demoHash 11 demoDb (keyReq ''#7'' [(''name'', ''Alicia'')])
     = (demoDb\<lparr>users := [\<lparr>uid = 0, name = ''Alicia'', email = ''alice@x.com'',
           password = ''#pw1'', updateAt = 11\<rparr>, bob]\<rparr>, Inr (SendStatus 200))"
  using patch_name_only [where d = demoDb and req = "keyReq ''#7'' [(''name'', ''Alicia'')]"
      and i = 0 and u = alice and n = "''Alicia''" and H = demoHash and now = 11]
  by (simp add: demo_gate demo_alice) (simp add: demo_defs getProp_def truthy_def)

text \<open>
  Claim C9 (Email uniqueness invariant). Serving any sequence of register, login, logout
  and update requests one after the other keeps the emails of the user store pairwise
  different; in particular every store reached from the empty database has no two users
  with the same email.
\<close>

theorem email_uniqueness_invariant:
  "(distinct (map email (users d)) \<longrightarrow> distinct (map email (users (run H d cs))))
   \<and> distinct (map email (users (run H emptyDb cs)))"
proof
  show "distinct (map email (users d)) \<longrightarrow> distinct (map email (users (run H d cs)))"
    by (simp add: run_emails)
  have "distinct (map email (users emptyDb))" by (simp add: emptyDb_def)
  then show "distinct (map email (users (run H emptyDb cs)))" by (rule run_emails)
qed

text \<open>The statement above on the example database.\<close>

theorem email_uniqueness_invariant_witness:
  "distinct (map email (users demoDb))
   \<and> distinct (map email (users (run demoHash demoDb demoCalls)))
   \<and> map email (users (run demoHash demoDb demoCalls)) = [''a2@x.com'', ''b@x.com'', ''alice@x.com'']"
proof -
  have "distinct (map email (users demoDb))" by (simp add: demo_defs)
  with email_uniqueness_invariant [of demoDb demoHash demoCalls] demo_run_emails
  show ?thesis by simp
qed

text \<open>
  Claim C10 (Same-millisecond logins collide). The generated key is the digest of the
  decimal digits of the time and nothing else. So when a login at time \<open>now\<close> has
  succeeded and its session has not been logged out, a second login whose credentials
  match and whose \<open>Date.now()\<close> is the same \<open>now\<close> generates the very same key, a
  session with that key is in the collection, and \<open>SessionDao.create\<close> is refused by the
  unique index: the handler throws and the database is unchanged.
\<close>

theorem same_millisecond_collision:
  assumes first: "post_login H now now1 d r1 = (d1, Inr (Send 200 [(''session_key'', K)]))"
    and between: "\<forall>c \<in> set cs. \<not> logsOut K c"
    and e: "getProp (body r2) ''email'' = Some e" "e \<noteq> []"
    and p: "getProp (body r2) ''password'' = Some p" "p \<noteq> []"
    and u: "u \<in> set (users (run H d1 cs))" "email u = e" "password u = sha256Hash H p"
  shows "gensessionKey H now = K
       \<and> (\<exists>s \<in> set (sessions (run H d1 cs)). sessionKey s = K)
       \<and> post_login H now now2 (run H d1 cs) r2 = (run H d1 cs, Inl DuplicateKey)"
proof -
  note ls = login_success [OF first]
  from ls have K: "K = gensessionKey H now" "K \<noteq> []" by blast+
  from ls have fresh: "\<forall>s \<in> set (sessions d). sessionKey s \<noteq> K" by blast
  from ls obtain v where "v \<in> set (users d)" and d1: "d1 = d\<lparr>sessions := sessions d @
           [\<lparr>sessionKey = K, userId = uid v, expiredAt = now1 + 7 * 24 * 60 * 60 * 1000\<rparr>]\<rparr>"
    by blast
  from fresh d1 have "Session_findOne (sessions d1) K
      = Some \<lparr>sessionKey = K, userId = uid v, expiredAt = now1 + 7 * 24 * 60 * 60 * 1000\<rparr>"
    by (simp add: Session_findOne_def find_append_None find_None_iff)
  with between have "Session_findOne (sessions (run H d1 cs)) K
      = Some \<lparr>sessionKey = K, userId = uid v, expiredAt = now1 + 7 * 24 * 60 * 60 * 1000\<rparr>"
    by (intro run_keeps_session)
  then have ex: "\<exists>s \<in> set (sessions (run H d1 cs)). sessionKey s = K"
    by (auto simp: Session_findOne_def find_Some_iff)
  from u have "User_findOne_email_password (users (run H d1 cs)) e (sha256Hash H p) \<noteq> None"
    by (auto simp: User_findOne_email_password_def find_None_iff)
  then obtain w where "User_findOne_email_password (users (run H d1 cs)) e (sha256Hash H p) = Some w"
    by blast
  with e p K ex have "post_login H now now2 (run H d1 cs) r2 = (run H d1 cs, Inl DuplicateKey)"
    by (simp add: post_login_def truthy_def Session_create_def)
  with K ex show ?thesis by simp
qed

text \<open>The statement above on the example database.\<close>

theorem same_millisecond_collision_witness:
  "gensessionKey demoHash 30 = ''#30''
   \<and> (\<exists>s \<in> set (sessions loggedIn). sessionKey s = ''#30'')
   \<and> post_login demoHash 30 31 loggedIn bobLogin = (loggedIn, Inl DuplicateKey)"
  using same_millisecond_collision [OF demo_login, of "[]" bobLogin "''b@x.com''" "''pw''" bob 31]
  by (simp add: bobLogin_def jsonReq_def getProp_def loggedIn_def login_users)
     (simp add: demo_defs)

end
